theory Spec2Isabelle
  imports Main "HOL-Library.Word"
begin

section \<open>The documentation catalog and the CLI renderer\<close>

text \<open>
  The command-line tool keeps a static table of documents and renders it in two ways:
  \<^verbatim>\<open>list\<close> prints every document with its description wrapped to the terminal width,
  \<^verbatim>\<open>show\<close> prints the bodies of the requested documents. This theory embeds the
  renderer (\<^verbatim>\<open>wrapText\<close>, \<^verbatim>\<open>colorizeCodeReferences\<close>, \<^verbatim>\<open>renderDocList\<close>,
  \<^verbatim>\<open>renderDocs\<close>, \<^verbatim>\<open>showDocs\<close>) and proves its properties.
\<close>

subsection \<open>Strings\<close>

text \<open>
  A JavaScript string is a sequence of UTF-16 code units and \<^verbatim>\<open>length\<close> counts code
  units, so a string is a list of 16-bit words. \<open>str\<close> turns a literal of the theory
  into such a string.
\<close>

type_synonym jschar = "16 word"
type_synonym jsstring = "jschar list"

definition str :: "string \<Rightarrow> jsstring" where
  "str s = map (\<lambda>c. of_nat (of_char c)) s"

definition nl :: jschar where "nl = 0x0A"
definition sp :: jschar where "sp = 0x20"
definition tick :: jschar where "tick = 0x60"
definition esc :: jschar where "esc = 0x1B"

text \<open>
  The characters that the regular expression class \<^verbatim>\<open>\s\<close> matches and that
  \<^verbatim>\<open>trim\<close> strips: the white space and line terminator code points of ECMAScript
  (both operations use the same set).
\<close>

definition isSpace :: "jschar \<Rightarrow> bool" where
  "isSpace c \<longleftrightarrow>
     c = 0x09 \<or> c = 0x0A \<or> c = 0x0B \<or> c = 0x0C \<or> c = 0x0D \<or> c = 0x20 \<or> c = 0xA0 \<or>
     c = 0x1680 \<or> (0x2000 \<le> c \<and> c \<le> 0x200A) \<or> c = 0x2028 \<or> c = 0x2029 \<or>
     c = 0x202F \<or> c = 0x205F \<or> c = 0x3000 \<or> c = 0xFEFF"

text \<open>\<^verbatim>\<open>String.prototype.trim\<close>.\<close>

definition trim :: "jsstring \<Rightarrow> jsstring" where
  "trim s = rev (dropWhile isSpace (rev (dropWhile isSpace s)))"

text \<open>\<^verbatim>\<open>Array.prototype.join\<close>.\<close>

fun joinWith :: "jsstring \<Rightarrow> jsstring list \<Rightarrow> jsstring" where
  "joinWith sep [] = []"
| "joinWith sep [x] = x"
| "joinWith sep (x # y # ys) = x @ sep @ joinWith sep (y # ys)"

text \<open>
  \<^verbatim>\<open>text.split(/\s+/)\<close>: the pieces between the maximal runs of white space. A text
  that starts (ends) with white space has an empty first (last) piece, and the empty text
  has the one piece \<^verbatim>\<open>""\<close>.
\<close>

function splitWs :: "jsstring \<Rightarrow> jsstring list" where
  "splitWs text =
     (case dropWhile (\<lambda>c. \<not> isSpace c) text of
        [] \<Rightarrow> [text]
      | _ # rest \<Rightarrow> takeWhile (\<lambda>c. \<not> isSpace c) text # splitWs (dropWhile isSpace rest))"
  by pat_completeness auto
termination
proof (relation "measure length")
  fix t :: jsstring and x rest
  assume "dropWhile (\<lambda>c. \<not> isSpace c) t = x # rest"
  then have "length (x # rest) \<le> length t"
    by (metis length_dropWhile_le)
  moreover have "length (dropWhile isSpace rest) \<le> length rest"
    by (rule length_dropWhile_le)
  ultimately show "(dropWhile isSpace rest, t) \<in> measure length"
    by simp
qed simp

declare splitWs.simps [simp del]

subsection \<open>Terminal styling\<close>

text \<open>
  The styling functions \<^verbatim>\<open>pc.bold\<close>, \<^verbatim>\<open>pc.green\<close>, \<^verbatim>\<open>pc.cyan\<close> and \<^verbatim>\<open>pc.dim\<close>
  come from a colour library outside the repository, so the renderer takes them as a
  parameter. Two instances are given: \<open>plainStyles\<close> leaves its input unchanged (what the
  library does when the terminal has no colours) and \<open>ansiStyles\<close> brackets its input
  with the SGR escape sequences of the style.
\<close>

record styles =
  bold :: "jsstring \<Rightarrow> jsstring"
  green :: "jsstring \<Rightarrow> jsstring"
  cyan :: "jsstring \<Rightarrow> jsstring"
  dim :: "jsstring \<Rightarrow> jsstring"

definition plainStyles :: styles where
  "plainStyles = \<lparr>bold = (\<lambda>s. s), green = (\<lambda>s. s), cyan = (\<lambda>s. s), dim = (\<lambda>s. s)\<rparr>"

definition sgr :: "string \<Rightarrow> string \<Rightarrow> jsstring \<Rightarrow> jsstring" where
  "sgr opn cls s = esc # str opn @ s @ esc # str cls"

definition ansiStyles :: styles where
  "ansiStyles = \<lparr>bold = sgr ''[1m'' ''[22m'', green = sgr ''[32m'' ''[39m'',
                  cyan = sgr ''[36m'' ''[39m'', dim = sgr ''[2m'' ''[22m''\<rparr>"

subsection \<open>The catalog\<close>

text \<open>
  The module \<^verbatim>\<open>docs-manifest\<close> that exports \<^verbatim>\<open>DOCS\<close> (the documents in declaration
  order) and \<^verbatim>\<open>DOC_LOOKUP\<close> (the table from slug to document) is not among the
  sources, so both are parameters of the renderer. \<^verbatim>\<open>DOC_LOOKUP\<close> is an ordinary
  object: its own properties, one per document, are the parameter (a partial map), and
  like every ordinary object it inherits the properties of \<^verbatim>\<open>Object.prototype\<close>.
\<close>

record doc =
  slug :: jsstring
  title :: jsstring
  description :: jsstring
  body :: jsstring

type_synonym doc_lookup = "jsstring \<rightharpoonup> doc"

text \<open>The string-named properties of \<^verbatim>\<open>Object.prototype\<close>.\<close>

definition objectPrototypeNames :: "jsstring list" where
  "objectPrototypeNames = map str
     [''constructor'', ''hasOwnProperty'', ''isPrototypeOf'', ''propertyIsEnumerable'',
      ''toLocaleString'', ''toString'', ''valueOf'', ''__proto__'', ''__defineGetter__'',
      ''__defineSetter__'', ''__lookupGetter__'', ''__lookupSetter__'']"

text \<open>
  \<^verbatim>\<open>value in DOC_LOOKUP\<close>: the \<^verbatim>\<open>in\<close> operator looks for the name among the own
  properties first and then along the prototype chain.
\<close>

definition isDocSlug :: "doc_lookup \<Rightarrow> jsstring \<Rightarrow> bool" where
  "isDocSlug DOC_LOOKUP v \<longleftrightarrow>
     (case DOC_LOOKUP v of Some d \<Rightarrow> True | None \<Rightarrow> v \<in> set objectPrototypeNames)"

text \<open>
  \<^verbatim>\<open>DOC_LOOKUP[slug]\<close>: the document of an own property; for an inherited name the
  function or object that \<^verbatim>\<open>Object.prototype\<close> holds under it (\<open>Builtin\<close>: a truthy
  value without the properties \<^verbatim>\<open>title\<close>, \<^verbatim>\<open>slug\<close> and \<^verbatim>\<open>body\<close>); \<^verbatim>\<open>undefined\<close>
  (\<open>None\<close>) otherwise.
\<close>

datatype jsvalue = Document doc | Builtin

definition getProperty :: "doc_lookup \<Rightarrow> jsstring \<Rightarrow> jsvalue option" where
  "getProperty DOC_LOOKUP k =
     (case DOC_LOOKUP k of
        Some d \<Rightarrow> Some (Document d)
      | None \<Rightarrow> if k \<in> set objectPrototypeNames then Some Builtin else None)"

subsection \<open>Colouring inline code\<close>

text \<open>
  \<^verbatim>\<open>text.replace(/`...`/g, fn)\<close> for the four patterns of \<^verbatim>\<open>colorizeCodeReferences\<close>.
  Each pattern starts and ends with a backtick and lets only \<^verbatim>\<open>[^`]+\<close> and literal
  characters other than the backtick stand between them. So a match can only start at a
  backtick, it runs to the next backtick, and it exists exactly when that next backtick
  exists and the characters in between (\<open>run\<close>) have the shape the pattern asks for
  (\<open>inner\<close>). The scan goes from left to right; after a match it goes on behind the
  closing backtick, otherwise with the next character.
\<close>

function replaceSpans :: "(jsstring \<Rightarrow> bool) \<Rightarrow> (jsstring \<Rightarrow> jsstring) \<Rightarrow> jsstring \<Rightarrow> jsstring" where
  "replaceSpans inner f [] = []"
| "replaceSpans inner f (c # cs) =
     (if c = tick \<and> dropWhile (\<lambda>x. x \<noteq> tick) cs \<noteq> [] \<and> inner (takeWhile (\<lambda>x. x \<noteq> tick) cs)
      then f (tick # takeWhile (\<lambda>x. x \<noteq> tick) cs @ [tick])
           @ replaceSpans inner f (tl (dropWhile (\<lambda>x. x \<noteq> tick) cs))
      else c # replaceSpans inner f cs)"
  by pat_completeness auto
termination
proof (relation "measure (\<lambda>(inner, f, s). length s)")
  fix c :: jschar and cs :: jsstring
  have "length (tl (dropWhile (\<lambda>x. x \<noteq> tick) cs)) \<le> length (dropWhile (\<lambda>x. x \<noteq> tick) cs)"
    by simp
  also have "\<dots> \<le> length cs"
    by (rule length_dropWhile_le)
  finally have "length (tl (dropWhile (\<lambda>x. x \<noteq> tick) cs)) < length (c # cs)"
    by simp
  then show "\<And>inner f. ((inner, f, tl (dropWhile (\<lambda>x. x \<noteq> tick) cs)), (inner, f, c # cs))
      \<in> measure (\<lambda>(inner, f, s). length s)"
    by simp
qed simp_all

text \<open>\<^verbatim>\<open>/`bunx [^`]+`/\<close> and \<^verbatim>\<open>/`bun run [^`]+`/\<close>: the literal prefix, then at least one
  more character.\<close>

definition startsWith :: "jsstring \<Rightarrow> jsstring \<Rightarrow> bool" where
  "startsWith pre run \<longleftrightarrow> take (length pre) run = pre \<and> length pre < length run"

definition isBunx :: "jsstring \<Rightarrow> bool" where
  "isBunx run = startsWith (str ''bunx '') run"

definition isBunRun :: "jsstring \<Rightarrow> bool" where
  "isBunRun run = startsWith (str ''bun run '') run"

text \<open>\<^verbatim>\<open>/`[^`]+\.(ts|json|toml|md)`/\<close>: at least one character, then a dot and one of the
  extensions, directly before the closing backtick.\<close>

definition endsWith :: "jsstring \<Rightarrow> jsstring \<Rightarrow> bool" where
  "endsWith suf run \<longleftrightarrow> drop (length run - length suf) run = suf \<and> length suf < length run"

definition isFileRef :: "jsstring \<Rightarrow> bool" where
  "isFileRef run \<longleftrightarrow> endsWith (str ''.ts'') run \<or> endsWith (str ''.json'') run \<or>
     endsWith (str ''.toml'') run \<or> endsWith (str ''.md'') run"

text \<open>\<^verbatim>\<open>/`[^`]+`/\<close>: at least one character.\<close>

definition isCode :: "jsstring \<Rightarrow> bool" where
  "isCode run \<longleftrightarrow> run \<noteq> []"

definition colorizeCodeReferences :: "styles \<Rightarrow> jsstring \<Rightarrow> jsstring" where
  "colorizeCodeReferences pc text =
     replaceSpans isCode (\<lambda>m. dim pc m)
       (replaceSpans isFileRef (\<lambda>m. cyan pc m)
         (replaceSpans isBunRun (\<lambda>m. bold pc (green pc m))
           (replaceSpans isBunx (\<lambda>m. bold pc (green pc m)) text)))"

subsection \<open>Word wrap\<close>

definition MIN_TERMINAL_WIDTH :: int where "MIN_TERMINAL_WIDTH = 40"
definition FALLBACK_TERMINAL_WIDTH :: int where "FALLBACK_TERMINAL_WIDTH = 80"
definition MIN_DESCRIPTION_WIDTH :: int where "MIN_DESCRIPTION_WIDTH = 20"

text \<open>\<open>columns\<close> is \<^verbatim>\<open>process.stdout.columns\<close> when it is a number.\<close>

definition getTerminalWidth :: "int option \<Rightarrow> int" where
  "getTerminalWidth columns =
     max MIN_TERMINAL_WIDTH (case columns of Some w \<Rightarrow> w | None \<Rightarrow> FALLBACK_TERMINAL_WIDTH)"

text \<open>The loop of \<^verbatim>\<open>wrapText\<close> over the words, with its two variables \<open>lines\<close> and
  \<open>current\<close>.\<close>

fun wrapLoop :: "int \<Rightarrow> jsstring list \<Rightarrow> jsstring \<Rightarrow> jsstring list \<Rightarrow> jsstring list \<times> jsstring" where
  "wrapLoop maxWidth lines current [] = (lines, current)"
| "wrapLoop maxWidth lines current (word # words) =
     (if length current = 0 then wrapLoop maxWidth lines word words
      else if int (length current) + 1 + int (length word) \<le> maxWidth
      then wrapLoop maxWidth lines (current @ sp # word) words
      else wrapLoop maxWidth (lines @ [current]) word words)"

text \<open>The loop followed by the last \<^verbatim>\<open>lines.push(current)\<close>.\<close>

definition wrapWords :: "int \<Rightarrow> jsstring list \<Rightarrow> jsstring list" where
  "wrapWords maxWidth words =
     (case wrapLoop maxWidth [] [] words of
        (lines, current) \<Rightarrow> if length current > 0 then lines @ [current] else lines)"

definition wrapText :: "jsstring \<Rightarrow> int \<Rightarrow> jsstring list" where
  "wrapText text maxWidth =
     (if trim text = [] \<or> maxWidth \<le> 0 then [text]
      else wrapWords maxWidth (splitWs text))"

subsection \<open>List mode\<close>

definition renderDocList :: "styles \<Rightarrow> doc list \<Rightarrow> int option \<Rightarrow> jsstring" where
  "renderDocList pc DOCS columns =
     (let indent = str ''  '';
          width = getTerminalWidth columns;
          descriptionWidth = max MIN_DESCRIPTION_WIDTH (width - int (length indent));
          cards = map (\<lambda>d.
            let titleLine = green pc (slug d) @ str ''  '' @ bold pc (cyan pc (title d));
                wrappedDescription =
                  map (\<lambda>line. indent @ dim pc line) (wrapText (description d) descriptionWidth)
            in joinWith [nl] (titleLine # wrappedDescription)) DOCS
      in joinWith [nl, nl] cards @ [nl])"

subsection \<open>Show mode\<close>

text \<open>
  \<^verbatim>\<open>throw new Error(message)\<close>: an error is its message. \<open>TypeError\<close> is the error
  that the engine throws when \<^verbatim>\<open>doc.body.trim()\<close> is evaluated for a \<^verbatim>\<open>doc\<close> whose
  \<^verbatim>\<open>body\<close> is \<^verbatim>\<open>undefined\<close>; its message is the engine's own.
\<close>

datatype error = Error jsstring | TypeError

definition noSlugsMessage :: jsstring where
  "noSlugsMessage = str ''Please provide at least one doc slug.''"

definition unknownSlugsMessage :: "jsstring list \<Rightarrow> jsstring" where
  "unknownSlugsMessage unknown = str ''Unknown doc slug(s): '' @ joinWith (str '', '') unknown"

definition internalErrorMessage :: "jsstring \<Rightarrow> jsstring" where
  "internalErrorMessage s = str ''Internal error: doc '' @ s @ str '' not found in lookup''"

text \<open>
  \<^verbatim>\<open>Array.from(new Set(slugs))\<close>: the set is filled in the order of the array, a value
  that is already in it is not added again, and the set is read in insertion order.
  \<open>setAdd\<close> has the elements added so far as its first argument.
\<close>

fun setAdd :: "'a list \<Rightarrow> 'a list \<Rightarrow> 'a list" where
  "setAdd seen [] = seen"
| "setAdd seen (x # xs) = setAdd (if x \<in> set seen then seen else seen @ [x]) xs"

definition arrayFromSet :: "'a list \<Rightarrow> 'a list" where
  "arrayFromSet xs = setAdd [] xs"

text \<open>The block of one document.\<close>

definition renderBlock :: "styles \<Rightarrow> doc \<Rightarrow> jsstring" where
  "renderBlock pc d =
     (let title = bold pc (cyan pc (str ''## '' @ title d)) @ [sp] @ dim pc (str ''('' @ slug d @ str '')'');
          body = colorizeCodeReferences pc (trim (body d))
      in joinWith [nl] (filter (\<lambda>s. s \<noteq> []) [title, [], body]))"

text \<open>
  \<^verbatim>\<open>uniqueSlugs.map(...)\<close>. The callback throws the internal error when the lookup
  gives \<^verbatim>\<open>undefined\<close>; for a value that is not a document the guard \<^verbatim>\<open>!doc\<close> does
  not fire, the title line is built from \<^verbatim>\<open>undefined\<close> fields, and
  \<^verbatim>\<open>doc.body.trim()\<close> throws.
\<close>

fun renderBlocks :: "styles \<Rightarrow> doc_lookup \<Rightarrow> jsstring list \<Rightarrow> error + jsstring list" where
  "renderBlocks pc DOC_LOOKUP [] = Inr []"
| "renderBlocks pc DOC_LOOKUP (s # ss) =
     (case getProperty DOC_LOOKUP s of
        None \<Rightarrow> Inl (Error (internalErrorMessage s))
      | Some Builtin \<Rightarrow> Inl TypeError
      | Some (Document d) \<Rightarrow>
          (case renderBlocks pc DOC_LOOKUP ss of
             Inl e \<Rightarrow> Inl e
           | Inr blocks \<Rightarrow> Inr (renderBlock pc d # blocks)))"

definition separator :: "styles \<Rightarrow> jsstring" where
  "separator pc = [nl, nl] @ dim pc (str ''---'') @ [nl, nl]"

definition requestedSlugs :: "jsstring list \<Rightarrow> jsstring list" where
  "requestedSlugs requested = filter (\<lambda>s. s \<noteq> []) (map trim requested)"

definition renderDocs :: "styles \<Rightarrow> doc_lookup \<Rightarrow> jsstring list \<Rightarrow> error + jsstring" where
  "renderDocs pc DOC_LOOKUP requested =
     (let slugs = requestedSlugs requested in
      if length slugs = 0 then Inl (Error noSlugsMessage)
      else
        let unknown = filter (\<lambda>s. \<not> isDocSlug DOC_LOOKUP s) slugs in
        if length unknown > 0 then Inl (Error (unknownSlugsMessage unknown))
        else
          let uniqueSlugs = arrayFromSet slugs in
          case renderBlocks pc DOC_LOOKUP uniqueSlugs of
            Inl e \<Rightarrow> Inl e
          | Inr blocks \<Rightarrow> Inr (joinWith (separator pc) blocks @ [nl]))"

text \<open>
  \<^verbatim>\<open>showDocs\<close> runs \<^verbatim>\<open>renderDocs\<close> inside \<^verbatim>\<open>Effect.try\<close>: a thrown error becomes
  a failure of the effect that carries it, a result is written to the console. The value
  on the right is what was logged.
\<close>

datatype failure = UnknownException error

definition showDocs :: "styles \<Rightarrow> doc_lookup \<Rightarrow> jsstring list \<Rightarrow> failure + jsstring list" where
  "showDocs pc DOC_LOOKUP slugs =
     (case renderDocs pc DOC_LOOKUP slugs of
        Inl e \<Rightarrow> Inl (UnknownException e)
      | Inr output \<Rightarrow> Inr [output])"

subsection \<open>A small catalog\<close>

text \<open>Two documents and their table, for evaluating the renderer on concrete requests.\<close>

definition docA :: doc where
  "docA = \<lparr>slug = str ''a'', title = str ''A'', description = str ''x y z'',
            body = str ''Run the setup first.''\<rparr>"

definition docB :: doc where
  "docB = \<lparr>slug = str ''b'', title = str ''B'', description = str '''',
            body = str ''Then edit the config.''\<rparr>"

definition exampleDocs :: "doc list" where
  "exampleDocs = [docA, docB]"

definition exampleLookup :: doc_lookup where
  "exampleLookup = map_of (map (\<lambda>d. (slug d, d)) exampleDocs)"

subsection \<open>First occurrences\<close>

text \<open>The position at which a value first occurs in a list (the length of the list when
  it does not occur).\<close>

definition firstIndex :: "'a list \<Rightarrow> 'a \<Rightarrow> nat" where
  "firstIndex xs a = length (takeWhile (\<lambda>y. y \<noteq> a) xs)"

subsection \<open>Words and greedy filling\<close>

text \<open>The white-space-separated words of a text: the non-empty pieces of the split.\<close>

definition wordsOf :: "jsstring \<Rightarrow> jsstring list" where
  "wordsOf text = filter (\<lambda>w. w \<noteq> []) (splitWs text)"

text \<open>
  Greedy line filling as a rule on its own, to compare \<^verbatim>\<open>wrapText\<close> with: a word goes
  onto the current line exactly when \<open>length current + 1 + length word \<le> maxWidth\<close>;
  otherwise the current line is finished and the word starts the next one.
\<close>

fun greedyFill :: "int \<Rightarrow> jsstring \<Rightarrow> jsstring list \<Rightarrow> jsstring list" where
  "greedyFill maxWidth current [] = [current]"
| "greedyFill maxWidth current (word # words) =
     (if int (length current) + 1 + int (length word) \<le> maxWidth
      then greedyFill maxWidth (current @ sp # word) words
      else current # greedyFill maxWidth word words)"

fun greedyLines :: "int \<Rightarrow> jsstring list \<Rightarrow> jsstring list" where
  "greedyLines maxWidth [] = []"
| "greedyLines maxWidth (word # words) = greedyFill maxWidth word words"

section \<open>Properties\<close>

subsection \<open>Trimming and blank requests\<close>

lemma trim_empty_iff: "trim s = [] \<longleftrightarrow> (\<forall>c\<in>set s. isSpace c)"
proof
  assume "trim s = []"
  then have "\<forall>c\<in>set (dropWhile isSpace s). isSpace c"
    by (simp add: trim_def)
  then have "dropWhile isSpace s = []"
    by (metis hd_dropWhile hd_in_set)
  then show "\<forall>c\<in>set s. isSpace c"
    by simp
next
  assume "\<forall>c\<in>set s. isSpace c"
  then have "dropWhile isSpace s = []"
    by simp
  then show "trim s = []"
    unfolding trim_def by (simp del: dropWhile_eq_Nil_conv)
qed

lemma requestedSlugs_empty_iff:
  "requestedSlugs requested = [] \<longleftrightarrow> (\<forall>s\<in>set requested. trim s = [])"
  by (auto simp: requestedSlugs_def filter_empty_conv)

lemma noSlugs_not_unknown: "noSlugsMessage \<noteq> unknownSlugsMessage unknown"
  by (simp add: noSlugsMessage_def unknownSlugsMessage_def str_def)

text \<open>
  C6. A request that is empty, or whose every entry trims to the empty string, makes
  \<^verbatim>\<open>renderDocs\<close> throw the error "Please provide at least one doc slug."; \<^verbatim>\<open>showDocs\<close>
  turns it into a failure of the effect that carries this error, and the error differs
  from every unknown-slug error.
\<close>

theorem renderDocs_no_slugs:
  assumes "\<forall>s\<in>set requested. trim s = []"
  shows "renderDocs pc DOC_LOOKUP requested = Inl (Error noSlugsMessage)
       \<and> showDocs pc DOC_LOOKUP requested = Inl (UnknownException (Error noSlugsMessage))
       \<and> (\<forall>unknown. Error noSlugsMessage \<noteq> Error (unknownSlugsMessage unknown))"
proof -
  have "requestedSlugs requested = []"
    using assms by (simp add: requestedSlugs_empty_iff)
  then have "renderDocs pc DOC_LOOKUP requested = Inl (Error noSlugsMessage)"
    by (simp add: renderDocs_def)
  then show ?thesis
    by (simp add: showDocs_def noSlugs_not_unknown)
qed

theorem renderDocs_no_slugs_witness:
  "trim (str '''') = [] \<and> trim (str ''  '') = []
   \<and> renderDocs plainStyles exampleLookup [str '''', str ''  ''] = Inl (Error noSlugsMessage)
   \<and> renderDocs plainStyles exampleLookup [] = Inl (Error noSlugsMessage)"
proof -
  have h: "\<forall>s\<in>set [str '''', str ''  '']. trim s = []"
    by (simp add: str_def trim_def isSpace_def)
  have e: "\<forall>s\<in>set ([] :: jsstring list). trim s = []"
    by simp
  show ?thesis
    using h renderDocs_no_slugs [OF h] renderDocs_no_slugs [OF e] by simp
qed

subsection \<open>Wrapping a blank description\<close>

text \<open>
  C7, as the code has it. For a description that is empty or consists only of white space,
  and every positive width, \<^verbatim>\<open>wrapText\<close> returns exactly one line, and this line is the
  description itself, unchanged: the empty line for the empty description, the same white
  space otherwise.
\<close>

theorem wrapText_blank:
  assumes "\<forall>c\<in>set text. isSpace c" and "0 < maxWidth"
  shows "wrapText text maxWidth = [text]"
  using assms by (simp add: wrapText_def trim_empty_iff)

theorem wrapText_blank_witness:
  "isSpace sp \<and> (0::int) < 20 \<and> wrapText [sp, sp] 20 = [[sp, sp]]"
proof -
  have h: "\<forall>c\<in>set [sp, sp]. isSpace c"
    by (simp add: sp_def isSpace_def)
  show ?thesis
    using h wrapText_blank [OF h, of 20] by simp
qed

text \<open>A description of two spaces is wrapped to a line of two spaces, not to the empty
  line.\<close>

theorem wrapText_blank_counterexample:
  "trim (str ''  '') = [] \<and> wrapText (str ''  '') 20 \<noteq> [[]]"
  by (simp add: wrapText_def trim_def str_def isSpace_def)

subsection \<open>Show mode\<close>

lemma set_setAdd: "set (setAdd seen xs) = set seen \<union> set xs"
  by (induction xs arbitrary: seen) auto

lemma distinct_setAdd: "distinct seen \<Longrightarrow> distinct (setAdd seen xs)"
  by (induction xs arbitrary: seen) auto

lemma firstIndex_append_in: "a \<in> set pre \<Longrightarrow> firstIndex (pre @ zs) a < length pre"
  by (induction pre) (auto simp: firstIndex_def)

lemma firstIndex_append_notin: "a \<notin> set pre \<Longrightarrow> length pre \<le> firstIndex (pre @ zs) a"
  by (induction pre) (auto simp: firstIndex_def)

lemma sorted_setAdd:
  assumes "set seen = set pre"
    and "sorted_wrt (\<lambda>a b. firstIndex (pre @ xs) a < firstIndex (pre @ xs) b) seen"
  shows "sorted_wrt (\<lambda>a b. firstIndex (pre @ xs) a < firstIndex (pre @ xs) b) (setAdd seen xs)"
  using assms
proof (induction xs arbitrary: seen pre)
  case Nil
  then show ?case by simp
next
  case (Cons x xs)
  let ?R = "\<lambda>a b. firstIndex (pre @ x # xs) a < firstIndex (pre @ x # xs) b"
  let ?seen = "if x \<in> set seen then seen else seen @ [x]"
  have set: "set ?seen = set (pre @ [x])"
    using Cons.prems(1) by auto
  have "sorted_wrt ?R ?seen"
  proof (cases "x \<in> set seen")
    case True
    then show ?thesis using Cons.prems(2) by simp
  next
    case False
    then have "x \<notin> set pre" using Cons.prems(1) by simp
    then have "\<forall>a\<in>set seen. ?R a x"
      using Cons.prems(1) firstIndex_append_in [of _ pre "x # xs"]
        firstIndex_append_notin [of x pre "x # xs"] by fastforce
    then show ?thesis
      using False Cons.prems(2) by (simp add: sorted_wrt_append)
  qed
  then have "sorted_wrt (\<lambda>a b. firstIndex ((pre @ [x]) @ xs) a < firstIndex ((pre @ [x]) @ xs) b) ?seen"
    by simp
  from Cons.IH [OF set this] show ?case by simp
qed

lemma arrayFromSet_props:
  "distinct (arrayFromSet xs) \<and> set (arrayFromSet xs) = set xs
   \<and> sorted_wrt (\<lambda>a b. firstIndex xs a < firstIndex xs b) (arrayFromSet xs)"
  using sorted_setAdd [of "[]" "[]" xs]
  by (simp add: arrayFromSet_def set_setAdd distinct_setAdd)

text \<open>A key of the table passes the \<^verbatim>\<open>in\<close> check and is looked up to its document.\<close>

lemma isDocSlug_own: "L s = Some d \<Longrightarrow> isDocSlug L s"
  by (simp add: isDocSlug_def)

lemma getProperty_own: "L s = Some d \<Longrightarrow> getProperty L s = Some (Document d)"
  by (simp add: getProperty_def)

lemma renderBlocks_known:
  "\<forall>s\<in>set ss. s \<in> dom L \<Longrightarrow>
   \<exists>docs. map L ss = map Some docs \<and> renderBlocks pc L ss = Inr (map (renderBlock pc) docs)"
proof (induction ss)
  case Nil
  then show ?case by simp
next
  case (Cons s ss)
  then obtain docs where docs: "map L ss = map Some docs"
      "renderBlocks pc L ss = Inr (map (renderBlock pc) docs)"
    by auto
  from Cons.prems obtain d where d: "L s = Some d"
    by auto
  have "map L (s # ss) = map Some (d # docs)"
    using d docs(1) by simp
  moreover have "renderBlocks pc L (s # ss) = Inr (map (renderBlock pc) (d # docs))"
    using d docs(2) by (simp add: getProperty_own)
  ultimately show ?case by blast
qed

lemma requestedSlugs_set:
  "set (requestedSlugs requested) = {u. u \<in> trim ` set requested \<and> u \<noteq> []}"
  by (auto simp: requestedSlugs_def)

lemma renderDocs_valid:
  assumes "requestedSlugs requested \<noteq> []"
    and "\<forall>s\<in>set (requestedSlugs requested). isDocSlug L s"
  shows "renderDocs pc L requested =
     (case renderBlocks pc L (arrayFromSet (requestedSlugs requested)) of
        Inl e \<Rightarrow> Inl e | Inr blocks \<Rightarrow> Inr (joinWith (separator pc) blocks @ [nl]))"
proof -
  have "filter (\<lambda>s. \<not> isDocSlug L s) (requestedSlugs requested) = []"
    using assms(2) by (simp add: filter_empty_conv)
  then show ?thesis
    using assms(1) by (simp add: renderDocs_def)
qed

text \<open>
  C1. Entries that trim to the empty string are dropped before anything else, so the
  request is read through the entries that remain. When at least one remains and each of
  them is a slug of the catalog (a key of the table), \<^verbatim>\<open>renderDocs\<close> returns the blocks
  of the documents \<open>docs\<close> joined by the separator, where \<open>docs\<close> are the documents of the
  slugs \<open>uniq\<close>: each requested slug once, in the order in which the slugs first occur in
  the request.
\<close>

theorem renderDocs_unique_blocks:
  assumes "\<exists>r\<in>set requested. trim r \<noteq> []"
    and "\<forall>r\<in>set requested. trim r \<noteq> [] \<longrightarrow> trim r \<in> dom L"
  shows "\<exists>uniq docs.
      renderDocs pc L requested = Inr (joinWith (separator pc) (map (renderBlock pc) docs) @ [nl])
    \<and> map L uniq = map Some docs
    \<and> distinct uniq
    \<and> set uniq = {u. u \<in> trim ` set requested \<and> u \<noteq> []}
    \<and> sorted_wrt (\<lambda>a b. firstIndex (filter (\<lambda>s. s \<noteq> []) (map trim requested)) a
                        < firstIndex (filter (\<lambda>s. s \<noteq> []) (map trim requested)) b) uniq"
proof -
  let ?slugs = "requestedSlugs requested"
  let ?uniq = "arrayFromSet ?slugs"
  have ne: "?slugs \<noteq> []"
    using assms(1) by (simp add: requestedSlugs_empty_iff)
  have own: "\<forall>s\<in>set ?slugs. s \<in> dom L"
    using assms(2) by (auto simp: requestedSlugs_set)
  then have known: "\<forall>s\<in>set ?slugs. isDocSlug L s"
    by (auto intro: isDocSlug_own)
  have props: "distinct ?uniq" "set ?uniq = set ?slugs"
      "sorted_wrt (\<lambda>a b. firstIndex ?slugs a < firstIndex ?slugs b) ?uniq"
    using arrayFromSet_props [of ?slugs] by simp_all
  from own props(2) have "\<forall>s\<in>set ?uniq. s \<in> dom L"
    by simp
  from renderBlocks_known [OF this, of pc] obtain docs where docs:
      "map L ?uniq = map Some docs" "renderBlocks pc L ?uniq = Inr (map (renderBlock pc) docs)"
    by blast
  have "renderDocs pc L requested = Inr (joinWith (separator pc) (map (renderBlock pc) docs) @ [nl])"
    using renderDocs_valid [OF ne known, of pc] docs(2) by simp
  moreover have "set ?uniq = {u. u \<in> trim ` set requested \<and> u \<noteq> []}"
    using props(2) by (simp add: requestedSlugs_set)
  moreover have "sorted_wrt (\<lambda>a b. firstIndex (filter (\<lambda>s. s \<noteq> []) (map trim requested)) a
                        < firstIndex (filter (\<lambda>s. s \<noteq> []) (map trim requested)) b) ?uniq"
    using props(3) by (simp add: requestedSlugs_def)
  ultimately show ?thesis
    using docs(1) props(1) by blast
qed

theorem renderDocs_unique_blocks_witness:
  "trim (str ''b'') \<noteq> []
   \<and> trim (str ''b'') \<in> dom exampleLookup
   \<and> trim (str '' a'') \<in> dom exampleLookup
   \<and> trim (str ''b '') \<in> dom exampleLookup
   \<and> renderDocs plainStyles exampleLookup [str ''b'', str '' a'', str ''b '']
       = Inr (joinWith (separator plainStyles)
               [renderBlock plainStyles docB, renderBlock plainStyles docA] @ [nl])
   \<and> (\<exists>uniq docs.
        renderDocs plainStyles exampleLookup [str ''b'', str '' a'', str ''b '']
          = Inr (joinWith (separator plainStyles) (map (renderBlock plainStyles) docs) @ [nl])
      \<and> map exampleLookup uniq = map Some docs
      \<and> distinct uniq
      \<and> set uniq = {u. u \<in> trim ` set [str ''b'', str '' a'', str ''b ''] \<and> u \<noteq> []})"
proof -
  have t: "trim (str ''b'') = str ''b''" "trim (str '' a'') = str ''a''" "trim (str ''b '') = str ''b''"
    by (simp_all add: trim_def str_def isSpace_def)
  have lk: "exampleLookup (str ''a'') = Some docA" "exampleLookup (str ''b'') = Some docB"
    by (simp_all add: exampleLookup_def exampleDocs_def docA_def docB_def str_def)
  then have d: "str ''a'' \<in> dom exampleLookup" "str ''b'' \<in> dom exampleLookup"
    by auto
  have k: "isDocSlug exampleLookup (str ''a'')" "isDocSlug exampleLookup (str ''b'')"
    using lk by (simp_all add: isDocSlug_def)
  have g: "getProperty exampleLookup (str ''a'') = Some (Document docA)"
      "getProperty exampleLookup (str ''b'') = Some (Document docB)"
    using lk by (simp_all add: getProperty_def)
  have ne: "str ''b'' \<noteq> []" "str ''a'' \<noteq> []"
    by (simp_all add: str_def)
  have h1: "\<exists>r\<in>set [str ''b'', str '' a'', str ''b '']. trim r \<noteq> []"
    using t ne by simp
  have h2: "\<forall>r\<in>set [str ''b'', str '' a'', str ''b ''].
      trim r \<noteq> [] \<longrightarrow> trim r \<in> dom exampleLookup"
    using t d by simp
  have "str ''a'' \<noteq> str ''b''"
    by (simp add: str_def)
  then have r: "renderDocs plainStyles exampleLookup [str ''b'', str '' a'', str ''b '']
       = Inr (joinWith (separator plainStyles)
               [renderBlock plainStyles docB, renderBlock plainStyles docA] @ [nl])"
    using t k g ne by (simp add: renderDocs_def requestedSlugs_def arrayFromSet_def)
  from renderDocs_unique_blocks [OF h1 h2, of plainStyles] obtain uniq docs where
      "renderDocs plainStyles exampleLookup [str ''b'', str '' a'', str ''b '']
          = Inr (joinWith (separator plainStyles) (map (renderBlock plainStyles) docs) @ [nl])"
      "map exampleLookup uniq = map Some docs" "distinct uniq"
      "set uniq = {u. u \<in> trim ` set [str ''b'', str '' a'', str ''b ''] \<and> u \<noteq> []}"
    by blast
  then have "\<exists>uniq docs.
        renderDocs plainStyles exampleLookup [str ''b'', str '' a'', str ''b '']
          = Inr (joinWith (separator plainStyles) (map (renderBlock plainStyles) docs) @ [nl])
      \<and> map exampleLookup uniq = map Some docs
      \<and> distinct uniq
      \<and> set uniq = {u. u \<in> trim ` set [str ''b'', str '' a'', str ''b ''] \<and> u \<noteq> []}"
    by blast
  with r t d ne show ?thesis by simp
qed

subsection \<open>Names that every object inherits\<close>

text \<open>
  What \<^verbatim>\<open>renderDocs\<close> does when some requested slug fails the \<^verbatim>\<open>in\<close> check: the
  error lists the trimmed request filtered by "not blank and not accepted by the check",
  in the order of the request and with repetitions.
\<close>

lemma renderDocs_unknown:
  assumes "\<exists>r\<in>set requested. trim r \<noteq> [] \<and> \<not> isDocSlug L (trim r)"
  shows "renderDocs pc L requested =
    Inl (Error (unknownSlugsMessage (filter (\<lambda>u. u \<noteq> [] \<and> \<not> isDocSlug L u) (map trim requested))))"
proof -
  let ?slugs = "requestedSlugs requested"
  let ?unknown = "filter (\<lambda>s. \<not> isDocSlug L s) ?slugs"
  from assms obtain r where r: "r \<in> set requested" "trim r \<noteq> []" "\<not> isDocSlug L (trim r)"
    by blast
  then have "trim r \<in> set ?unknown"
    by (simp add: requestedSlugs_def)
  then have "?unknown \<noteq> []" "?slugs \<noteq> []"
    by (auto simp: filter_empty_conv)
  moreover have "?unknown = filter (\<lambda>u. u \<noteq> [] \<and> \<not> isDocSlug L u) (map trim requested)"
    by (simp add: requestedSlugs_def)
  ultimately show ?thesis
    by (simp add: renderDocs_def)
qed

text \<open>Facts about the small catalog and the name \<^verbatim>\<open>constructor\<close>, which is none of
  its slugs.\<close>

lemma example_trims:
  "trim (str ''a'') = str ''a''" "trim (str ''bogus'') = str ''bogus''"
  "trim (str ''constructor'') = str ''constructor''"
  by (simp_all add: trim_def str_def isSpace_def)

lemma example_lookups:
  "exampleLookup (str ''a'') = Some docA" "exampleLookup (str ''bogus'') = None"
  "exampleLookup (str ''constructor'') = None"
  by (simp_all add: exampleLookup_def exampleDocs_def docA_def docB_def str_def)

lemma example_names:
  "str ''constructor'' \<in> set objectPrototypeNames" "str ''bogus'' \<notin> set objectPrototypeNames"
  by (simp_all add: objectPrototypeNames_def str_def)

lemma example_nonempty:
  "str ''a'' \<noteq> []" "str ''bogus'' \<noteq> []" "str ''constructor'' \<noteq> []"
  "str ''a'' \<noteq> str ''constructor''" "str ''bogus'' \<noteq> str ''constructor''"
  by (simp_all add: str_def)

lemma example_checks:
  "isDocSlug exampleLookup (str ''a'')" "\<not> isDocSlug exampleLookup (str ''bogus'')"
  "isDocSlug exampleLookup (str ''constructor'')"
  by (simp_all add: isDocSlug_def example_lookups example_names)

lemma example_properties:
  "getProperty exampleLookup (str ''a'') = Some (Document docA)"
  "getProperty exampleLookup (str ''constructor'') = Some Builtin"
  by (simp_all add: getProperty_def example_lookups example_names)

text \<open>
  C2. A request with a slug that is not in the catalog should fail with an unknown-slug
  error that names every such slug. \<^verbatim>\<open>constructor\<close> is not a slug of the small catalog, but the
  \<^verbatim>\<open>in\<close> check accepts it: requested alone it is not reported, the renderer goes on and
  ends with a type error; requested together with a document and with \<^verbatim>\<open>bogus\<close>, the
  error names \<^verbatim>\<open>bogus\<close> only.
\<close>

theorem renderDocs_inherited_name:
  "exampleLookup (str ''constructor'') = None
   \<and> renderDocs plainStyles exampleLookup [str ''constructor''] = Inl TypeError
   \<and> showDocs plainStyles exampleLookup [str ''constructor''] = Inl (UnknownException TypeError)
   \<and> renderDocs plainStyles exampleLookup [str ''a'', str ''constructor'', str ''bogus'']
       = Inl (Error (str ''Unknown doc slug(s): bogus''))"
proof -
  have "renderDocs plainStyles exampleLookup [str ''constructor''] = Inl TypeError"
    by (simp add: renderDocs_def requestedSlugs_def arrayFromSet_def example_trims
        example_nonempty example_checks example_properties)
  moreover have "unknownSlugsMessage [str ''bogus''] = str ''Unknown doc slug(s): bogus''"
    by (simp add: unknownSlugsMessage_def str_def)
  then have "renderDocs plainStyles exampleLookup [str ''a'', str ''constructor'', str ''bogus'']
       = Inl (Error (str ''Unknown doc slug(s): bogus''))"
    by (simp add: renderDocs_def requestedSlugs_def example_trims example_nonempty example_checks)
  ultimately show ?thesis
    by (simp add: showDocs_def example_lookups)
qed

text \<open>
  C10. A slug that is not in the catalog and is requested more than once should be named
  once for each occurrence. \<^verbatim>\<open>constructor\<close> requested twice is not named
  at all: alone the request ends with a type error, and next to \<^verbatim>\<open>bogus\<close> the error
  names \<^verbatim>\<open>bogus\<close> only.
\<close>

theorem renderDocs_repeated_inherited_name:
  "count_list (map trim [str ''constructor'', str ''bogus'', str ''constructor''])
       (str ''constructor'') = 2
   \<and> renderDocs plainStyles exampleLookup [str ''constructor'', str ''bogus'', str ''constructor'']
       = Inl (Error (str ''Unknown doc slug(s): bogus''))
   \<and> renderDocs plainStyles exampleLookup [str ''constructor'', str ''constructor'']
       = Inl TypeError"
proof -
  have "unknownSlugsMessage [str ''bogus''] = str ''Unknown doc slug(s): bogus''"
    by (simp add: unknownSlugsMessage_def str_def)
  then have "renderDocs plainStyles exampleLookup
        [str ''constructor'', str ''bogus'', str ''constructor'']
       = Inl (Error (str ''Unknown doc slug(s): bogus''))"
    by (simp add: renderDocs_def requestedSlugs_def example_trims example_nonempty example_checks)
  moreover have "renderDocs plainStyles exampleLookup [str ''constructor'', str ''constructor'']
       = Inl TypeError"
    by (simp add: renderDocs_def requestedSlugs_def arrayFromSet_def example_trims
        example_nonempty example_checks example_properties)
  ultimately show ?thesis
    by (simp add: example_trims example_nonempty)
qed

text \<open>
  C9. A slug accepted by \<^verbatim>\<open>isDocSlug\<close> should have a document in the table.
  \<^verbatim>\<open>constructor\<close> is accepted and is no key of the small catalog; the lookup gives
  a value that is not a document. The request passes the validation, the guard for the
  internal error does not fire on it, and the block cannot be rendered.
\<close>

theorem isDocSlug_without_document:
  "isDocSlug exampleLookup (str ''constructor'')
   \<and> exampleLookup (str ''constructor'') = None
   \<and> getProperty exampleLookup (str ''constructor'') = Some Builtin
   \<and> filter (\<lambda>s. \<not> isDocSlug exampleLookup s) (requestedSlugs [str ''constructor'']) = []
   \<and> renderBlocks plainStyles exampleLookup (arrayFromSet (requestedSlugs [str ''constructor'']))
       = Inl TypeError"
  by (simp add: requestedSlugs_def arrayFromSet_def example_trims example_nonempty
      example_checks example_properties example_lookups)

subsection \<open>Word wrap\<close>

lemma wrapLoop_lines:
  "wrapLoop W (L @ lines) cur ws =
     (L @ fst (wrapLoop W lines cur ws), snd (wrapLoop W lines cur ws))"
proof (induction ws arbitrary: lines cur)
  case Nil
  then show ?case by simp
next
  case (Cons w ws)
  from Cons [of lines w] Cons [of lines "cur @ sp # w"] Cons [of "lines @ [cur]" w]
  show ?case by simp
qed

lemma wrapLoop_append:
  "wrapLoop W lines cur (xs @ ys) =
     (case wrapLoop W lines cur xs of (l, c) \<Rightarrow> wrapLoop W l c ys)"
  by (induction xs arbitrary: lines cur) auto

lemma wrapLoop_bound:
  assumes "\<forall>l\<in>set lines. int (length l) \<le> W" "int (length cur) \<le> W"
    "\<forall>w\<in>set ws. int (length w) \<le> W"
  shows "(\<forall>l\<in>set (fst (wrapLoop W lines cur ws)). int (length l) \<le> W)
       \<and> int (length (snd (wrapLoop W lines cur ws))) \<le> W"
  using assms
proof (induction ws arbitrary: lines cur)
  case Nil
  then show ?case by simp
next
  case (Cons w ws)
  show ?case
  proof (cases "length cur = 0")
    case True
    then show ?thesis using Cons.IH [of lines w] Cons.prems by simp
  next
    case ne: False
    show ?thesis
    proof (cases "int (length cur) + 1 + int (length w) \<le> W")
      case True
      then show ?thesis using ne Cons.IH [of lines "cur @ sp # w"] Cons.prems by simp
    next
      case False
      then show ?thesis using ne Cons.IH [of "lines @ [cur]" w] Cons.prems by simp
    qed
  qed
qed

lemma wrapWords_bound:
  assumes "0 \<le> W" "\<forall>w\<in>set ws. int (length w) \<le> W"
  shows "\<forall>l\<in>set (wrapWords W ws). int (length l) \<le> W"
proof -
  obtain lines cur where r: "wrapLoop W [] [] ws = (lines, cur)"
    by (cases "wrapLoop W [] [] ws")
  from wrapLoop_bound [of "[]" W "[]" ws] assms r
  have "\<forall>l\<in>set lines. int (length l) \<le> W" "int (length cur) \<le> W"
    by simp_all
  then show ?thesis
    using r by (simp add: wrapWords_def)
qed

lemma wrapLoop_greedy:
  assumes "cur \<noteq> []" "\<forall>w\<in>set ws. w \<noteq> []"
  shows "(case wrapLoop W lines cur ws of (l, c) \<Rightarrow> if length c > 0 then l @ [c] else l)
       = lines @ greedyFill W cur ws"
  using assms by (induction ws arbitrary: lines cur) auto

lemma wrapWords_greedy:
  assumes "\<forall>w\<in>set ws. w \<noteq> []"
  shows "wrapWords W ws = greedyLines W ws"
proof (cases ws)
  case Nil
  then show ?thesis by (simp add: wrapWords_def)
next
  case (Cons w ws')
  with assms have "w \<noteq> []" "\<forall>w\<in>set ws'. w \<noteq> []"
    by simp_all
  from wrapLoop_greedy [OF this, of W "[]"] show ?thesis
    using Cons by (simp add: wrapWords_def)
qed

lemma wrapWords_skip: "wrapWords W ([] # ws) = wrapWords W ws"
  by (simp add: wrapWords_def)

lemma joinWith_Cons2: "xs \<noteq> [] \<Longrightarrow> joinWith sep (x # xs) = x @ sep @ joinWith sep xs"
  by (cases xs) simp_all

lemma greedyFill_not_Nil: "greedyFill W cur ws \<noteq> []"
  by (induction ws arbitrary: cur) auto

lemma join_greedyFill: "joinWith [sp] (greedyFill W cur ws) = joinWith [sp] (cur # ws)"
proof (induction ws arbitrary: cur)
  case Nil
  then show ?case by simp
next
  case (Cons w ws)
  show ?case
  proof (cases "int (length cur) + 1 + int (length w) \<le> W")
    case True
    then have "joinWith [sp] (greedyFill W cur (w # ws)) = joinWith [sp] ((cur @ sp # w) # ws)"
      using Cons [of "cur @ sp # w"] by simp
    also have "\<dots> = joinWith [sp] (cur # w # ws)"
      by (cases ws) simp_all
    finally show ?thesis .
  next
    case False
    then have "joinWith [sp] (greedyFill W cur (w # ws)) = cur @ [sp] @ joinWith [sp] (greedyFill W w ws)"
      by (simp add: joinWith_Cons2 greedyFill_not_Nil)
    then show ?thesis
      using Cons [of w] by simp
  qed
qed

lemma join_greedyLines: "joinWith [sp] (greedyLines W ws) = joinWith [sp] ws"
  by (cases ws) (simp_all add: join_greedyFill)

lemma splitWs_not_Nil: "splitWs t \<noteq> []"
  by (subst splitWs.simps) (simp split: list.split)

lemma splitWs_Nil: "splitWs [] = [[]]"
  by (simp add: splitWs.simps)

lemma splitWs_last:
  "dropWhile (\<lambda>c. \<not> isSpace c) t = [] \<Longrightarrow> splitWs t = [t]"
  by (subst splitWs.simps) (simp del: dropWhile_eq_Nil_conv)

lemma splitWs_more:
  "dropWhile (\<lambda>c. \<not> isSpace c) t = c # rest \<Longrightarrow>
   splitWs t = takeWhile (\<lambda>c. \<not> isSpace c) t # splitWs (dropWhile isSpace rest)"
  by (subst splitWs.simps) simp

lemma splitWs_blank:
  assumes "\<forall>c\<in>set t. isSpace c"
  shows "\<forall>w\<in>set (splitWs t). w = []"
proof (cases t)
  case Nil
  then show ?thesis by (simp add: splitWs_Nil)
next
  case (Cons c cs)
  with assms have c: "isSpace c" and cs: "dropWhile isSpace cs = []"
    by simp_all
  from c have "dropWhile (\<lambda>c. \<not> isSpace c) (c # cs) = c # cs"
    by simp
  from splitWs_more [OF this] c cs have "splitWs (c # cs) = [[], []]"
    by (simp add: splitWs_Nil del: dropWhile_eq_Nil_conv)
  then show ?thesis
    using Cons by simp
qed

lemma splitWs_inner:
  "t \<noteq> [] \<Longrightarrow> \<not> isSpace (last t) \<Longrightarrow>
     (\<forall>w\<in>set (tl (splitWs t)). w \<noteq> []) \<and> (\<not> isSpace (hd t) \<longrightarrow> hd (splitWs t) \<noteq> [])"
proof (induction t rule: splitWs.induct)
  case (1 t)
  show ?case
  proof (cases "dropWhile (\<lambda>c. \<not> isSpace c) t")
    case Nil
    then have "splitWs t = [t]"
      by (rule splitWs_last)
    then show ?thesis
      using "1.prems" by simp
  next
    case (Cons c rest)
    let ?t' = "dropWhile isSpace rest"
    have c: "isSpace c"
      using Cons hd_dropWhile [of "\<lambda>c. \<not> isSpace c" t] by simp
    have t: "t = takeWhile (\<lambda>c. \<not> isSpace c) t @ c # rest"
      using Cons takeWhile_dropWhile_id [of "\<lambda>c. \<not> isSpace c" t] by simp
    then have "last t = last (c # rest)"
      by (metis last_appendR list.distinct(1))
    with c "1.prems"(2) have rest: "rest \<noteq> []" "last rest = last t"
      by (auto split: if_splits)
    then have "\<not> (\<forall>x\<in>set rest. isSpace x)"
      using "1.prems"(2) last_in_set by metis
    then have t': "?t' \<noteq> []"
      by simp
    have "rest = takeWhile isSpace rest @ ?t'"
      by simp
    then have "last rest = last ?t'"
      using t' by (metis last_appendR)
    then have l: "\<not> isSpace (last ?t')"
      using rest "1.prems"(2) by simp
    have h: "\<not> isSpace (hd ?t')"
      using t' hd_dropWhile by blast
    from "1.IH" [OF Cons t' l] h
    have "\<forall>w\<in>set (tl (splitWs ?t')). w \<noteq> []" "hd (splitWs ?t') \<noteq> []"
      by simp_all
    then have all: "\<forall>w\<in>set (splitWs ?t'). w \<noteq> []"
      using splitWs_not_Nil [of ?t'] by (cases "splitWs ?t'") auto
    have s: "splitWs t = takeWhile (\<lambda>c. \<not> isSpace c) t # splitWs ?t'"
      using Cons by (rule splitWs_more)
    have "\<not> isSpace (hd t) \<longrightarrow> takeWhile (\<lambda>c. \<not> isSpace c) t \<noteq> []"
      using "1.prems"(1) by (cases t) auto
    with s all show ?thesis by simp
  qed
qed

lemma wrapWords_splitWs:
  assumes "t \<noteq> []" "\<not> isSpace (last t)"
  shows "wrapWords W (splitWs t) = greedyLines W (wordsOf t)"
proof -
  obtain p ps where s: "splitWs t = p # ps"
    using splitWs_not_Nil [of t] by (cases "splitWs t") auto
  with splitWs_inner [OF assms] have ps: "\<forall>w\<in>set ps. w \<noteq> []"
    by simp
  show ?thesis
  proof (cases "p = []")
    case True
    then have "wordsOf t = ps"
      using s ps by (simp add: wordsOf_def filter_id_conv)
    then show ?thesis
      using s True wrapWords_greedy [OF ps] by (simp add: wrapWords_skip)
  next
    case False
    then have "wordsOf t = p # ps"
      using s ps by (simp add: wordsOf_def filter_id_conv)
    moreover have "\<forall>w\<in>set (p # ps). w \<noteq> []"
      using False ps by simp
    ultimately show ?thesis
      using s wrapWords_greedy by simp
  qed
qed

text \<open>
  C4, as the code has it. Let the text contain at least one word, let no word be longer
  than the width \<open>W > 0\<close>. Then no line of \<^verbatim>\<open>wrapText\<close> is longer than \<open>W\<close>. If moreover
  the text does not end in white space, the lines are those of greedy filling over the
  words, and joined by single spaces they give the words joined by single spaces.
  (A text of white space only is returned as it is, whatever its length; what a text
  ending in white space gives beyond the bound on the lines is not stated here.)
\<close>

theorem wrapText_lines:
  assumes "0 < W" and "\<exists>c\<in>set text. \<not> isSpace c"
    and "\<forall>w\<in>set (wordsOf text). int (length w) \<le> W"
  shows "(\<forall>l\<in>set (wrapText text W). int (length l) \<le> W)
       \<and> (\<not> isSpace (last text) \<longrightarrow>
            wrapText text W = greedyLines W (wordsOf text)
          \<and> joinWith [sp] (wrapText text W) = joinWith [sp] (wordsOf text))"
proof -
  have w: "wrapText text W = wrapWords W (splitWs text)"
    using assms(1,2) by (auto simp: wrapText_def trim_empty_iff)
  have "\<forall>w\<in>set (splitWs text). int (length w) \<le> W"
  proof
    fix w assume "w \<in> set (splitWs text)"
    then show "int (length w) \<le> W"
      using assms(1,3) by (cases "w = []") (auto simp: wordsOf_def)
  qed
  then have bound: "\<forall>l\<in>set (wrapText text W). int (length l) \<le> W"
    using wrapWords_bound [of W "splitWs text"] assms(1) w by simp
  have "text \<noteq> []"
    using assms(2) by auto
  then have "\<not> isSpace (last text) \<longrightarrow> wrapText text W = greedyLines W (wordsOf text)"
    using w wrapWords_splitWs [of "text" W] by simp
  with bound show ?thesis
    by (simp add: join_greedyLines)
qed

theorem wrapText_lines_witness:
  "(0::int) < 10
   \<and> \<not> isSpace (last (str '' the quick brown fox''))
   \<and> wordsOf (str '' the quick brown fox'') = [str ''the'', str ''quick'', str ''brown'', str ''fox'']
   \<and> wrapText (str '' the quick brown fox'') 10 = [str ''the quick'', str ''brown fox'']
   \<and> joinWith [sp] (wrapText (str '' the quick brown fox'') 10) = str ''the quick brown fox''"
proof -
  let ?t = "str '' the quick brown fox''"
  have s: "splitWs ?t = [[], str ''the'', str ''quick'', str ''brown'', str ''fox'']"
    by (simp add: str_def splitWs.simps isSpace_def)
  then have w: "wordsOf ?t = [str ''the'', str ''quick'', str ''brown'', str ''fox'']"
    by (simp add: wordsOf_def) (simp add: str_def)
  have h2: "\<exists>c\<in>set ?t. \<not> isSpace c"
    by (simp add: str_def isSpace_def)
  have h3: "\<forall>w\<in>set (wordsOf ?t). int (length w) \<le> 10"
    by (simp add: w) (simp add: str_def)
  have l: "\<not> isSpace (last ?t)"
    by (simp add: str_def isSpace_def)
  have "(0::int) < 10"
    by simp
  from wrapText_lines [OF this h2 h3] l
  have "wrapText ?t 10 = greedyLines 10 (wordsOf ?t)"
    "joinWith [sp] (wrapText ?t 10) = joinWith [sp] (wordsOf ?t)"
    by blast+
  moreover have "greedyLines 10 (wordsOf ?t) = [str ''the quick'', str ''brown fox'']"
    by (simp add: w) (simp add: str_def sp_def)
  moreover have "joinWith [sp] (wordsOf ?t) = str ''the quick brown fox''"
    by (simp add: w) (simp add: str_def sp_def)
  ultimately show ?thesis
    using l w by simp
qed

text \<open>
  Two texts whose words are no longer than the width: \<^verbatim>\<open>"a "\<close> at width 5 is wrapped
  to the line \<^verbatim>\<open>"a "\<close>, not to the word \<^verbatim>\<open>"a"\<close>; three spaces at width 2 are wrapped
  to a line of length 3.
\<close>

theorem wrapText_lines_counterexample:
  "wordsOf (str ''a '') = [str ''a''] \<and> int (length (str ''a'')) \<le> 5
   \<and> joinWith [sp] (wrapText (str ''a '') 5) = str ''a ''
   \<and> joinWith [sp] (wordsOf (str ''a '')) = str ''a''
   \<and> str ''a '' \<noteq> str ''a''
   \<and> wordsOf [sp, sp, sp] = []
   \<and> wrapText [sp, sp, sp] 2 = [[sp, sp, sp]]
   \<and> \<not> int (length [sp, sp, sp]) \<le> 2"
proof -
  have "splitWs (str ''a '') = [str ''a'', []]"
    by (simp add: str_def splitWs.simps isSpace_def)
  moreover have "splitWs [sp, sp, sp] = [[], []]"
    by (simp add: sp_def splitWs.simps isSpace_def)
  moreover have "trim (str ''a '') \<noteq> []" "trim [sp, sp, sp] = []"
    by (simp_all add: trim_def str_def sp_def isSpace_def)
  ultimately show ?thesis
    by (simp add: wordsOf_def wrapText_def wrapWords_def) (simp add: str_def sp_def)
qed

lemma wrapLoop_long_head:
  assumes "W < int (length w)"
  shows "wrapLoop W lines cur (w # post) =
     wrapLoop W (if length cur > 0 then lines @ [cur] else lines) w post"
  using assms by simp

lemma wrapLoop_long_tail:
  assumes "0 \<le> W" "W < int (length w)"
  shows "(case wrapLoop W L w post of (l, c) \<Rightarrow> if length c > 0 then l @ [c] else l)
       = L @ [w] @ wrapWords W post"
proof (cases post)
  case Nil
  then show ?thesis
    using assms by (auto simp: wrapWords_def)
next
  case (Cons v vs)
  have "wrapLoop W L w (v # vs) = wrapLoop W ((L @ [w]) @ []) v vs"
    using assms by auto
  also have "\<dots> = ((L @ [w]) @ fst (wrapLoop W [] v vs), snd (wrapLoop W [] v vs))"
    by (rule wrapLoop_lines)
  finally show ?thesis
    using Cons by (simp add: wrapWords_def case_prod_beta)
qed

lemma wrapWords_long:
  assumes "0 \<le> W" "W < int (length w)"
  shows "wrapWords W (pre @ w # post) = wrapWords W pre @ [w] @ wrapWords W post"
proof -
  obtain l c where p: "wrapLoop W [] [] pre = (l, c)"
    by (cases "wrapLoop W [] [] pre")
  have "wrapLoop W [] [] (pre @ w # post) = wrapLoop W l c (w # post)"
    using p by (simp add: wrapLoop_append)
  also have "\<dots> = wrapLoop W (wrapWords W pre) w post"
    using p wrapLoop_long_head [OF assms(2), of l c post] by (simp add: wrapWords_def)
  finally have "wrapWords W (pre @ w # post) =
      (case wrapLoop W (wrapWords W pre) w post of (l, c) \<Rightarrow> if length c > 0 then l @ [c] else l)"
    by (simp add: wrapWords_def [of W "pre @ w # post"])
  then show ?thesis
    using wrapLoop_long_tail [OF assms] by simp
qed

text \<open>
  C8. A word longer than the width \<open>W > 0\<close> is a line of \<^verbatim>\<open>wrapText\<close> by itself,
  unchanged. More precisely, wherever it stands among the pieces of the split, the lines
  are the lines of the pieces before it, then the word, then the lines of the pieces
  after it.
\<close>

theorem wrapText_long_word:
  assumes "0 < W" and "w \<in> set (wordsOf text)" and "W < int (length w)"
  shows "w \<in> set (wrapText text W)
       \<and> (\<forall>pre post. splitWs text = pre @ w # post \<longrightarrow>
            wrapText text W = wrapWords W pre @ [w] @ wrapWords W post)"
proof -
  from assms(2) have w: "w \<in> set (splitWs text)" "w \<noteq> []"
    by (simp_all add: wordsOf_def)
  then have "\<not> (\<forall>c\<in>set text. isSpace c)"
    using splitWs_blank by blast
  then have t: "wrapText text W = wrapWords W (splitWs text)"
    using assms(1) by (auto simp: wrapText_def trim_empty_iff)
  have d: "wrapText text W = wrapWords W pre @ [w] @ wrapWords W post"
    if "splitWs text = pre @ w # post" for pre post
    using that t wrapWords_long [of W w pre post] assms(1,3) by simp
  from w(1) obtain pre post where "splitWs text = pre @ w # post"
    by (auto simp: in_set_conv_decomp)
  from d [OF this] have "w \<in> set (wrapText text W)"
    by simp
  with d show ?thesis by blast
qed

theorem wrapText_long_word_witness:
  "(0::int) < 4 \<and> str ''abcdefgh'' \<in> set (wordsOf (str ''ab  abcdefgh c  '')) \<and> (4::int) < int (length (str ''abcdefgh''))
    \<and> str ''abcdefgh'' \<in> set (wrapText (str ''ab  abcdefgh c  '') 4)
    \<and> wrapText (str ''ab  abcdefgh c  '') 4 = [str ''ab'', str ''abcdefgh'', str ''c '']"
proof -
  have s: "splitWs (str ''ab  abcdefgh c  '') = [str ''ab'', str ''abcdefgh'', str ''c'', []]"
    by (simp add: str_def splitWs.simps isSpace_def)
  have h: "str ''abcdefgh'' \<in> set (wordsOf (str ''ab  abcdefgh c  ''))"
    "(4::int) < int (length (str ''abcdefgh''))"
    by (simp_all add: wordsOf_def s) (simp_all add: str_def)
  have "splitWs (str ''ab  abcdefgh c  '') = [str ''ab''] @ str ''abcdefgh'' # [str ''c'', []]"
    using s by simp
  with wrapText_long_word [OF _ h]
  have "str ''abcdefgh'' \<in> set (wrapText (str ''ab  abcdefgh c  '') 4)"
    "wrapText (str ''ab  abcdefgh c  '') 4
      = wrapWords 4 [str ''ab''] @ [str ''abcdefgh''] @ wrapWords 4 [str ''c'', []]"
    by simp_all
  moreover have "wrapWords 4 [str ''ab''] = [str ''ab'']" "wrapWords 4 [str ''c'', []] = [str ''c '']"
    by (simp_all add: wrapWords_def str_def sp_def)
  ultimately show ?thesis
    using h by simp
qed

subsection \<open>Colouring and the order of the substitutions\<close>

text \<open>
  C5. The four substitutions run in the stated order (commands, files, other code), each
  over the whole text that the one before it returned. A replacement keeps the backticks
  of the span it styles, so a later pattern matches that span again: with the ANSI
  styles the command span \<^verbatim>\<open>`bunx x`\<close>, set in bold green by the first substitution,
  is matched by the last one too and comes out wrapped in bold, green and dim, which is
  not the bold green span that a substitution for the other code only would leave.
\<close>

theorem colorize_dims_rewritten_span:
  "colorizeCodeReferences ansiStyles (tick # str ''bunx x'' @ [tick])
     = bold ansiStyles (green ansiStyles (dim ansiStyles (tick # str ''bunx x'' @ [tick])))
   \<and> colorizeCodeReferences ansiStyles (tick # str ''bunx x'' @ [tick])
     \<noteq> bold ansiStyles (green ansiStyles (tick # str ''bunx x'' @ [tick]))"
  by (simp add: colorizeCodeReferences_def ansiStyles_def sgr_def str_def tick_def esc_def
      isBunx_def isBunRun_def isFileRef_def isCode_def startsWith_def endsWith_def)

subsection \<open>The show command and its arguments\<close>

text \<open>
  C3. The \<^verbatim>\<open>show\<close> command declares the positional arguments \<^verbatim>\<open>slugs\<close> and nothing
  else; its handler hands them to \<^verbatim>\<open>showDocs\<close>. There is no flag that stands for all
  documents: the token \<^verbatim>\<open>--all\<close> reaches the renderer as a slug like any other, and on
  the small catalog the request fails with an unknown-slug error, while the request for
  every slug of that catalog prints both documents.
\<close>

theorem show_all_flag_unknown:
  "showDocs plainStyles exampleLookup [str ''--all'']
     = Inl (UnknownException (Error (str ''Unknown doc slug(s): --all'')))
   \<and> showDocs plainStyles exampleLookup (map slug exampleDocs)
     = Inr [joinWith (separator plainStyles)
             [renderBlock plainStyles docA, renderBlock plainStyles docB] @ [nl]]"
proof -
  have t: "trim (str ''--all'') = str ''--all''" "trim (str ''a'') = str ''a''"
      "trim (str ''b'') = str ''b''"
    by (simp_all add: trim_def str_def isSpace_def)
  have lk: "exampleLookup (str ''--all'') = None" "exampleLookup (str ''a'') = Some docA"
      "exampleLookup (str ''b'') = Some docB"
    by (simp_all add: exampleLookup_def exampleDocs_def docA_def docB_def str_def)
  have "str ''--all'' \<notin> set objectPrototypeNames"
    by (simp add: objectPrototypeNames_def str_def)
  then have k: "\<not> isDocSlug exampleLookup (str ''--all'')" "isDocSlug exampleLookup (str ''a'')"
      "isDocSlug exampleLookup (str ''b'')"
    using lk by (simp_all add: isDocSlug_def)
  have g: "getProperty exampleLookup (str ''a'') = Some (Document docA)"
      "getProperty exampleLookup (str ''b'') = Some (Document docB)"
    using lk by (simp_all add: getProperty_def)
  have ne: "str ''--all'' \<noteq> []" "str ''a'' \<noteq> []" "str ''b'' \<noteq> []" "str ''a'' \<noteq> str ''b''"
    by (simp_all add: str_def)
  have m: "map slug exampleDocs = [str ''a'', str ''b'']"
    by (simp add: exampleDocs_def docA_def docB_def)
  have "unknownSlugsMessage [str ''--all''] = str ''Unknown doc slug(s): --all''"
    by (simp add: unknownSlugsMessage_def str_def)
  then show ?thesis
    using t k g ne
    by (simp add: m showDocs_def renderDocs_def requestedSlugs_def arrayFromSet_def)
qed

end
